theory Spec2Isabelle
  imports Main "HOL-Library.AList" "HOL-Library.Multiset"
begin

section \<open>Wire messages, effects and outcomes\<close>

text \<open>
  An address is the pair \<open>(ip, port)\<close> that Python's socket calls take. A CSV row
  (\<open>csv.DictReader\<close>) is a dictionary from column names to cell texts.
\<close>

type_synonym address = "string \<times> int"
type_synonym event = "string \<rightharpoonup> string"

text \<open>
  The JSON objects exchanged by \<open>manager.py\<close> and \<open>peer.py\<close>, one constructor per
  value of the \<open>command\<close> field, carrying the fields the handlers read with
  \<open>message.get\<close>. A peer that never received \<open>set_id\<close> has \<open>peer_id = None\<close>, so the
  identity inside \<open>store_ack\<close> is optional. \<open>Other\<close> stands for any other command.
\<close>

datatype message =
    Register int
  | SetId int
  | Store string event
  | StoreAck "int option" string
  | FindEvent string
  | FoundEvent string event
  | Leave int
  | SetNextPeer address
  | Teardown
  | Other string

datatype error = TypeError | OSError | KeyError

text \<open>One constructor per \<open>print\<close> statement of the modelled functions.\<close>

datatype report =
    MgrRegistered int string int
  | MgrStoreAck "int option" string
  | MgrUnknownCommand message
  | MgrPeerRemoved int
  | MgrUnknownPeer int
  | MgrNoPeersToUpdate
  | MgrSetNext int address
  | MgrErrSetNext int error
  | MgrNoPeersRegistered
  | MgrDistributing
  | MgrErrStore int error
  | MgrDistributionComplete
  | MgrRunLoopError error
  | PeerStored "int option" string
  | PeerForwarding "int option" string address
  | PeerNotFoundNoNext "int option" string
  | PeerFound "int option" string event
  | PeerNextSet "int option" address
  | PeerTeardown "int option"
  | PeerUnknownCommand "int option" message
  | PeerSendingQuery "int option" string address
  | PeerNextNotSet
  | PeerListenError error

text \<open>
  What a function does to the outside world, in program order: \<open>Sendto msg dst\<close> is a
  call \<open>self.sock.sendto(json.dumps(msg).encode(), dst)\<close> (whether or not the call
  raises), \<open>Print r\<close> is a \<open>print\<close>.
\<close>

datatype effect = Sendto message "address option" | Print report

text \<open>
  How a call ends: it returns, an exception leaves it, or it waits for ever on a
  \<open>threading.Lock\<close> that is never released.
\<close>

datatype status = Returned | Raised error | Blocked

text \<open>
  The UDP socket, as far as the code can observe it: \<open>sendto\<close> raises \<open>TypeError\<close> when
  the destination is \<open>None\<close>, and \<open>OSError\<close> on the destinations the socket refuses
  (the field \<open>sock\<close> of a process is that set, as a predicate); otherwise it returns and
  the datagram is on its way.
\<close>

definition sendto :: "(address \<Rightarrow> bool) \<Rightarrow> address option \<Rightarrow> error option" where
  "sendto refuses dst =
     (case dst of
        None \<Rightarrow> Some TypeError
      | Some a \<Rightarrow> if refuses a then Some OSError else None)"

definition status_of :: "error option \<Rightarrow> status" where
  "status_of r = (case r of None \<Rightarrow> Returned | Some e \<Rightarrow> Raised e)"

text \<open>The datagrams that really left through a socket: the \<open>sendto\<close> calls that returned.\<close>

fun datagrams :: "(address \<Rightarrow> bool) \<Rightarrow> effect list \<Rightarrow> (message \<times> address) list" where
  "datagrams refuses [] = []"
| "datagrams refuses (Sendto msg (Some a) # tr) =
     (if refuses a then datagrams refuses tr else (msg, a) # datagrams refuses tr)"
| "datagrams refuses (Sendto msg None # tr) = datagrams refuses tr"
| "datagrams refuses (Print r # tr) = datagrams refuses tr"

text \<open>The \<open>sendto\<close> calls of a trace, in order.\<close>

fun sendto_calls :: "effect list \<Rightarrow> (message \<times> address option) list" where
  "sendto_calls [] = []"
| "sendto_calls (Sendto msg dst # tr) = (msg, dst) # sendto_calls tr"
| "sendto_calls (Print r # tr) = sendto_calls tr"

fun reports :: "effect list \<Rightarrow> report list" where
  "reports [] = []"
| "reports (Sendto msg dst # tr) = reports tr"
| "reports (Print r # tr) = r # reports tr"

section \<open>The manager (\<open>manager.py\<close>)\<close>

text \<open>
  \<open>Manager.__init__\<close>: \<open>peers\<close> is the dictionary \<open>peer_id -> (address, port)\<close>, kept as
  an association list in insertion order; \<open>lock\<close> is \<open>True\<close> while the
  \<open>threading.Lock\<close> is held.
\<close>

record manager =
  host :: string
  port :: int
  peers :: "(int \<times> address) list"
  next_peer_id :: int
  running :: bool
  events :: "event list"
  lock :: bool
  sock :: "address \<Rightarrow> bool"

type_synonym manager_outcome = "status \<times> manager \<times> effect list"

definition Manager_init :: "(address \<Rightarrow> bool) \<Rightarrow> string \<Rightarrow> int \<Rightarrow> manager" where
  "Manager_init s h p =
     \<lparr>host = h, port = p, peers = [], next_peer_id = 0, running = True,
      events = [], lock = False, sock = s\<rparr>"

text \<open>
  The body of the \<open>for\<close> loop of \<open>update_ring\<close> over \<open>enumerate(sorted_peers)\<close>: the
  exception of a failed \<open>sendto\<close> is caught and reported, and the loop goes on.
\<close>

fun update_ring_loop ::
  "(address \<Rightarrow> bool) \<Rightarrow> (int \<times> address) list \<Rightarrow> (nat \<times> int \<times> address) list \<Rightarrow> effect list" where
  "update_ring_loop s sorted_peers [] = []"
| "update_ring_loop s sorted_peers ((i, peer_id, dst) # rest) =
     (let n = length sorted_peers;
          next_index = (i + 1) mod n;
          nxt = snd (sorted_peers ! next_index);
          msg = SetNextPeer nxt
      in Sendto msg (Some dst)
         # (case sendto s (Some dst) of
              None \<Rightarrow> Print (MgrSetNext peer_id nxt)
            | Some e \<Rightarrow> Print (MgrErrSetNext peer_id e))
         # update_ring_loop s sorted_peers rest)"

text \<open>
  \<open>update_ring\<close>: \<open>with self.lock\<close> waits for ever when the lock is held; otherwise the
  lock is taken for the sorting only and released again.
\<close>

definition update_ring :: "manager \<Rightarrow> manager_outcome" where
  "update_ring m =
     (if lock m then (Blocked, m, [])
      else
        let sorted_peers = sort_key fst (peers m);
            n = length sorted_peers
        in if n = 0 then (Returned, m, [Print MgrNoPeersToUpdate])
           else (Returned, m,
                 update_ring_loop (sock m) sorted_peers (enumerate 0 sorted_peers)))"

text \<open>
  \<open>register_peer\<close>, called with \<open>peer_port = message.get("peer_port")\<close>. The reply is
  sent outside any \<open>try\<close>, so a failing \<open>sendto\<close> leaves the function as an exception,
  after the registry has been updated.
\<close>

definition register_peer :: "manager \<Rightarrow> int \<Rightarrow> address \<Rightarrow> manager_outcome" where
  "register_peer m peer_port addr =
     (if lock m then (Blocked, m, [])
      else
        let peer_address = fst addr;
            peer_id = next_peer_id m;
            m' = m\<lparr>next_peer_id := next_peer_id m + 1,
                    peers := AList.update peer_id (peer_address, peer_port) (peers m)\<rparr>;
            response = SetId peer_id
        in (status_of (sendto (sock m') (Some addr)), m',
            [Print (MgrRegistered peer_id peer_address peer_port),
             Sendto response (Some addr)]))"

text \<open>
  \<open>remove_peer\<close>, called with \<open>peer_id = message.get("peer_id")\<close>. The call of
  \<open>update_ring\<close> is made inside \<open>with self.lock\<close>, that is, with the lock held; the
  lock is released only if that call comes back.
\<close>

definition remove_peer :: "manager \<Rightarrow> int \<Rightarrow> address \<Rightarrow> manager_outcome" where
  "remove_peer m peer_id addr =
     (if lock m then (Blocked, m, [])
      else
        let m1 = m\<lparr>lock := True\<rparr>
        in if map_of (peers m1) peer_id \<noteq> None then
             let m2 = m1\<lparr>peers := AList.delete peer_id (peers m1)\<rparr>
             in (case update_ring m2 of
                   (Blocked, m3, tr) \<Rightarrow> (Blocked, m3, Print (MgrPeerRemoved peer_id) # tr)
                 | (st, m3, tr) \<Rightarrow>
                     (st, m3\<lparr>lock := False\<rparr>, Print (MgrPeerRemoved peer_id) # tr))
           else (Returned, m1\<lparr>lock := False\<rparr>, [Print (MgrUnknownPeer peer_id)]))"

text \<open>
  The Python built-ins \<open>distribute_events\<close> calls: \<open>hash\<close> on strings (fixed for the
  life of the process), \<open>str\<close> on an integer and \<open>str\<close> on a row.
\<close>

record builtins =
  py_hash :: "string \<Rightarrow> int"
  str_int :: "int \<Rightarrow> string"
  str_event :: "event \<Rightarrow> string"

text \<open>
  The key of a row, as the loop of \<open>distribute_events\<close> computes it:
  \<open>key = event.get("EVENT_ID")\<close>, replaced by \<open>hash(str(event))\<close> when that is \<open>None\<close>,
  then \<open>key_str = str(key)\<close> (which leaves a string as it is).
\<close>

definition event_key :: "builtins \<Rightarrow> event \<Rightarrow> string" where
  "event_key py event =
     (case event ''EVENT_ID'' of
        Some k \<Rightarrow> k
      | None \<Rightarrow> str_int py (py_hash py (str_event py event)))"

text \<open>
  The \<open>for\<close> loop of \<open>distribute_events\<close>. \<open>self.peers[assigned_peer_id]\<close> stands
  outside the \<open>try\<close>, so a missing key would end the loop with \<open>KeyError\<close>; a failed
  \<open>sendto\<close> is caught and reported. Python's \<open>%\<close> with a positive right operand is
  \<open>mod\<close> on \<open>int\<close>.
\<close>

fun distribute_loop ::
  "builtins \<Rightarrow> manager \<Rightarrow> int list \<Rightarrow> event list \<Rightarrow> status \<times> effect list" where
  "distribute_loop py m sorted_peer_ids [] = (Returned, [])"
| "distribute_loop py m sorted_peer_ids (event # rest) =
     (let key_str = event_key py event;
          num_peers = length sorted_peer_ids;
          assigned_index = py_hash py key_str mod int num_peers;
          assigned_peer_id = sorted_peer_ids ! nat assigned_index
      in case map_of (peers m) assigned_peer_id of
           None \<Rightarrow> (Raised KeyError, [])
         | Some assigned_peer \<Rightarrow>
             (case distribute_loop py m sorted_peer_ids rest of
                (st, tr) \<Rightarrow>
                  (st, Sendto (Store key_str event) (Some assigned_peer)
                       # (case sendto (sock m) (Some assigned_peer) of
                            None \<Rightarrow> []
                          | Some e \<Rightarrow> [Print (MgrErrStore assigned_peer_id e)])
                       @ tr)))"

definition distribute_events :: "builtins \<Rightarrow> manager \<Rightarrow> manager_outcome" where
  "distribute_events py m =
     (if lock m then (Blocked, m, [])
      else if peers m = [] then (Returned, m, [Print MgrNoPeersRegistered])
      else
        let sorted_peer_ids = sort (map fst (peers m))
        in (case distribute_loop py m sorted_peer_ids (events m) of
              (st, tr) \<Rightarrow>
                (st, m, Print MgrDistributing # tr
                        @ (if st = Returned then [Print MgrDistributionComplete] else []))))"

fun Manager_handle_message :: "manager \<Rightarrow> message \<Rightarrow> address \<Rightarrow> manager_outcome" where
  "Manager_handle_message m (Register peer_port) addr = register_peer m peer_port addr"
| "Manager_handle_message m (StoreAck peer_id event_id) addr =
     (Returned, m, [Print (MgrStoreAck peer_id event_id)])"
| "Manager_handle_message m (Leave peer_id) addr = remove_peer m peer_id addr"
| "Manager_handle_message m msg addr = (Returned, m, [Print (MgrUnknownCommand msg)])"

text \<open>
  The \<open>while self.running\<close> loop of \<open>run\<close> on the datagrams that arrive, in arrival
  order: an exception of a handler is caught and reported, a handler that blocks stops
  the loop for good. \<open>Returned\<close> here means that every given datagram has been handled.
\<close>

fun Manager_run :: "manager \<Rightarrow> (message \<times> address) list \<Rightarrow> manager_outcome" where
  "Manager_run m [] = (Returned, m, [])"
| "Manager_run m ((msg, addr) # rest) =
     (if \<not> running m then (Returned, m, [])
      else
        case Manager_handle_message m msg addr of
          (Blocked, m', tr) \<Rightarrow> (Blocked, m', tr)
        | (Raised e, m', tr) \<Rightarrow>
            (case Manager_run m' rest of
               (st, m'', tr') \<Rightarrow> (st, m'', tr @ Print (MgrRunLoopError e) # tr'))
        | (Returned, m', tr) \<Rightarrow>
            (case Manager_run m' rest of
               (st, m'', tr') \<Rightarrow> (st, m'', tr @ tr')))"

text \<open>The identities handed out in a trace: the \<open>peer_id\<close> of every \<open>set_id\<close> reply.\<close>

fun issued :: "effect list \<Rightarrow> int list" where
  "issued [] = []"
| "issued (Sendto (SetId i) dst # tr) = i # issued tr"
| "issued (e # tr) = issued tr"

section \<open>The peer (\<open>peer.py\<close>)\<close>

text \<open>
  \<open>Peer.__init__\<close>. The peer's lock is taken and released around the single assignment
  of \<open>store_event\<close> and nowhere else, so it is free at every call and is left out.
\<close>

record peer =
  p_port :: int
  peer_id :: "int option"
  manager_address :: address
  peer_running :: bool
  data_store :: "string \<rightharpoonup> event"
  next_peer :: "address option"
  peer_sock :: "address \<Rightarrow> bool"

type_synonym peer_outcome = "status \<times> peer \<times> effect list"

definition Peer_init :: "(address \<Rightarrow> bool) \<Rightarrow> int \<Rightarrow> peer" where
  "Peer_init s pp =
     \<lparr>p_port = pp, peer_id = None, manager_address = (''127.0.0.1'', 5000),
      peer_running = True, data_store = Map.empty, next_peer = None, peer_sock = s\<rparr>"

definition store_event :: "peer \<Rightarrow> string \<Rightarrow> event \<Rightarrow> peer_outcome" where
  "store_event p event_id event_data =
     (Returned, p\<lparr>data_store := (data_store p)(event_id \<mapsto> event_data)\<rparr>,
      [Print (PeerStored (peer_id p) event_id)])"

definition handle_store :: "peer \<Rightarrow> string \<Rightarrow> event \<Rightarrow> peer_outcome" where
  "handle_store p event_id event_data =
     (case store_event p event_id event_data of
        (st, p1, tr) \<Rightarrow>
          let ack = StoreAck (peer_id p1) event_id
          in (status_of (sendto (peer_sock p1) (Some (manager_address p1))), p1,
              tr @ [Sendto ack (Some (manager_address p1))]))"

text \<open>
  \<open>handle_find_event(message, addr)\<close> with \<open>message = {"command": "find_event",
  "event_id": event_id}\<close>: the reply goes to \<open>addr\<close>, the sender of the datagram as
  \<open>recvfrom\<close> gave it (or \<open>None\<close> when \<open>query_event\<close> calls the handler itself); the
  forwarded datagram is \<open>message\<close> as it came.
\<close>

definition handle_find_event :: "peer \<Rightarrow> string \<Rightarrow> address option \<Rightarrow> peer_outcome" where
  "handle_find_event p event_id addr =
     (case data_store p event_id of
        Some event_data \<Rightarrow>
          (status_of (sendto (peer_sock p) addr), p,
           [Sendto (FoundEvent event_id event_data) addr])
      | None \<Rightarrow>
          (case next_peer p of
             Some nxt \<Rightarrow>
               (status_of (sendto (peer_sock p) (Some nxt)), p,
                [Print (PeerForwarding (peer_id p) event_id nxt),
                 Sendto (FindEvent event_id) (Some nxt)])
           | None \<Rightarrow> (Returned, p, [Print (PeerNotFoundNoNext (peer_id p) event_id)])))"

definition handle_found_event :: "peer \<Rightarrow> string \<Rightarrow> event \<Rightarrow> peer_outcome" where
  "handle_found_event p event_id event_data =
     (Returned, p, [Print (PeerFound (peer_id p) event_id event_data)])"

definition handle_set_next_peer :: "peer \<Rightarrow> address \<Rightarrow> peer_outcome" where
  "handle_set_next_peer p nxt =
     (Returned, p\<lparr>next_peer := Some nxt\<rparr>, [Print (PeerNextSet (peer_id p) nxt)])"

definition handle_teardown :: "peer \<Rightarrow> peer_outcome" where
  "handle_teardown p = (Returned, p\<lparr>peer_running := False\<rparr>, [Print (PeerTeardown (peer_id p))])"

fun Peer_handle_message :: "peer \<Rightarrow> message \<Rightarrow> address option \<Rightarrow> peer_outcome" where
  "Peer_handle_message p (Store event_id event_data) addr = handle_store p event_id event_data"
| "Peer_handle_message p (FindEvent event_id) addr = handle_find_event p event_id addr"
| "Peer_handle_message p (FoundEvent event_id event_data) addr =
     handle_found_event p event_id event_data"
| "Peer_handle_message p (SetNextPeer nxt) addr = handle_set_next_peer p nxt"
| "Peer_handle_message p Teardown addr = handle_teardown p"
| "Peer_handle_message p (SetId i) addr = (Returned, p, [])"
| "Peer_handle_message p msg addr = (Returned, p, [Print (PeerUnknownCommand (peer_id p) msg)])"

definition query_event :: "peer \<Rightarrow> string \<Rightarrow> peer_outcome" where
  "query_event p event_id =
     (let msg = FindEvent event_id
      in case next_peer p of
           Some nxt \<Rightarrow>
             (status_of (sendto (peer_sock p) (Some nxt)), p,
              [Print (PeerSendingQuery (peer_id p) event_id nxt), Sendto msg (Some nxt)])
         | None \<Rightarrow>
             (case Peer_handle_message p msg None of
                (st, p', tr) \<Rightarrow> (st, p', Print PeerNextNotSet # tr)))"

text \<open>
  One turn of the \<open>listen\<close> loop on a datagram \<open>message\<close> received from \<open>addr\<close>: an
  exception of the handler is caught and reported.
\<close>

definition listen_step :: "peer \<Rightarrow> message \<Rightarrow> address \<Rightarrow> peer_outcome" where
  "listen_step p msg addr =
     (case Peer_handle_message p msg (Some addr) of
        (Raised e, p', tr) \<Rightarrow> (Returned, p', tr @ [Print (PeerListenError e)])
      | r \<Rightarrow> r)"

section \<open>Datagrams between peers\<close>

text \<open>
  The transport the peers run on, for the lookup protocol: every peer binds
  \<open>('127.0.0.1', p_port)\<close>, so that is the sender address its datagrams carry. A packet
  is \<open>(message, source, destination)\<close>. Delivery hands the packet to the first running
  peer bound to the destination, which handles it in its \<open>listen\<close> loop; the datagrams
  that peer sends become new packets. No packet is lost, and packets are handled one at
  a time, oldest first.
\<close>

type_synonym packet = "message \<times> address \<times> address"

definition bound_address :: "peer \<Rightarrow> address" where
  "bound_address p = (''127.0.0.1'', p_port p)"

definition emitted :: "peer \<Rightarrow> effect list \<Rightarrow> packet list" where
  "emitted p tr = map (\<lambda>(msg, dst). (msg, bound_address p, dst)) (datagrams (peer_sock p) tr)"

fun deliver :: "packet \<Rightarrow> peer list \<Rightarrow> peer list \<times> packet list" where
  "deliver pk [] = ([], [])"
| "deliver (msg, src, dst) (p # ps) =
     (if bound_address p = dst \<and> peer_running p then
        (case listen_step p msg src of (st, p', tr) \<Rightarrow> (p' # ps, emitted p tr))
      else
        (case deliver (msg, src, dst) ps of (ps', out) \<Rightarrow> (p # ps', out)))"

definition net_step :: "peer list \<times> packet list \<Rightarrow> peer list \<times> packet list" where
  "net_step c =
     (case snd c of
        [] \<Rightarrow> c
      | pk # queue \<Rightarrow> (case deliver pk (fst c) of (ps', out) \<Rightarrow> (ps', queue @ out)))"

text \<open>
  A ring of peers, in ring order: the peers are bound to distinct ports, and the
  successor pointer of each is the address of the next one, the last pointing back to
  the first.
\<close>

definition ring :: "peer list \<Rightarrow> bool" where
  "ring ps \<longleftrightarrow>
     ps \<noteq> [] \<and> distinct (map p_port ps) \<and>
     map next_peer ps = map (\<lambda>q. Some (bound_address q)) (rotate1 ps)"

text \<open>Every peer of the list is serving and its socket refuses no destination.\<close>

definition serving :: "peer list \<Rightarrow> bool" where
  "serving ps \<longleftrightarrow> list_all (\<lambda>p. peer_running p \<and> (\<forall>a. \<not> peer_sock p a)) ps"

text \<open>
  The operator of the peer at position \<open>i\<close> types \<open>query event_id\<close>: the network
  afterwards, holding the datagrams \<open>query_event\<close> sent.
\<close>

definition query_at :: "peer list \<Rightarrow> nat \<Rightarrow> string \<Rightarrow> peer list \<times> packet list" where
  "query_at ps i event_id = (ps, emitted (ps ! i) (snd (snd (query_event (ps ! i) event_id))))"

section \<open>Concrete configurations\<close>

text \<open>
  The registry of the scenario \<open>{0:(A,9000), 1:(B,9001), 2:(C,9002)}\<close>, with the
  entries in another insertion order.
\<close>

definition abc_manager :: manager where
  "abc_manager =
     \<lparr>host = ''127.0.0.1'', port = 5000,
      peers = [(2, (''C'', 9002)), (0, (''A'', 9000)), (1, (''B'', 9001))],
      next_peer_id = 3, running = True, events = [], lock = False,
      sock = (\<lambda>a. False)\<rparr>"

text \<open>A manager with no peer registered and two rows loaded.\<close>

definition empty_manager :: manager where
  "empty_manager =
     (Manager_init (\<lambda>a. False) ''127.0.0.1'' 5000)
       \<lparr>events := [[''EVENT_ID'' \<mapsto> ''EVT1''], [''YEARMONTH'' \<mapsto> ''202401'']]\<rparr>"

text \<open>
  Built-ins for the examples: the hash of a string is its length, \<open>str\<close> of every
  integer and of every row is a fixed text.
\<close>

definition toy_builtins :: builtins where
  "toy_builtins =
     \<lparr>py_hash = (\<lambda>s. int (length s)), str_int = (\<lambda>i. ''70''), str_event = (\<lambda>e. ''{}'')\<rparr>"

text \<open>The registry of \<open>abc_manager\<close> with the two rows loaded.\<close>

definition abc_loaded :: manager where
  "abc_loaded =
     abc_manager\<lparr>events := [[''EVENT_ID'' \<mapsto> ''EVT1''], [''YEARMONTH'' \<mapsto> ''202401'']]\<rparr>"

text \<open>A registered peer with no successor yet, holding one row.\<close>

definition lone_peer :: peer where
  "lone_peer =
     (Peer_init (\<lambda>a. False) 9000)
       \<lparr>peer_id := Some 0, data_store := [''EVT1'' \<mapsto> [''EVENT_ID'' \<mapsto> ''EVT1'']]\<rparr>"

text \<open>
  Three peers on ports 9000, 9001 and 9002 in a ring, the third holding the row
  \<open>EVT1\<close>.
\<close>

definition abc_ring :: "peer list" where
  "abc_ring =
     [(Peer_init (\<lambda>a. False) 9000)\<lparr>peer_id := Some 0, next_peer := Some (''127.0.0.1'', 9001)\<rparr>,
      (Peer_init (\<lambda>a. False) 9001)\<lparr>peer_id := Some 1, next_peer := Some (''127.0.0.1'', 9002)\<rparr>,
      (Peer_init (\<lambda>a. False) 9002)\<lparr>peer_id := Some 2, next_peer := Some (''127.0.0.1'', 9000),
         data_store := [''EVT1'' \<mapsto> [''EVENT_ID'' \<mapsto> ''EVT1'']]\<rparr>]"

section \<open>Ring rebuild\<close>

lemma sendto_calls_append:
  "sendto_calls (xs @ ys) = sendto_calls xs @ sendto_calls ys"
  by (induction xs rule: sendto_calls.induct) simp_all

lemma sendto_calls_update_ring_loop:
  "sendto_calls (update_ring_loop s sp es) =
     map (\<lambda>(i, pid, dst).
            (SetNextPeer (snd (sp ! ((i + 1) mod length sp))), Some dst)) es"
  by (induction es) (auto simp: Let_def split: option.splits)

lemma sort_key_empty_iff: "(sort_key f xs = []) = (xs = [])"
  using length_sort [of f xs] by (simp only: length_0_conv [symmetric])

text \<open>
  Claim C1. Whenever \<open>update_ring\<close> gets the lock, it returns and leaves the manager as
  it was. With \<open>sp\<close> the registry sorted by ascending identity and \<open>n\<close> its length: if
  \<open>n = 0\<close> the only effect is the report that there are no peers (no \<open>sendto\<close> at
  all); otherwise the \<open>sendto\<close> calls are, in order and for every position \<open>i < n\<close>,
  one \<open>set_next_peer\<close> to the address of the peer at position \<open>i\<close>, naming the address
  of the peer at position \<open>(i + 1) mod n\<close>; for \<open>n = 1\<close> the single peer is named as its
  own successor.
\<close>

theorem update_ring_successors:
  assumes "\<not> lock m"
  shows "case update_ring m of (st, m', tr) \<Rightarrow>
       st = Returned \<and> m' = m \<and>
       (let sp = sort_key fst (peers m); n = length sp
        in sorted (map fst sp) \<and> mset sp = mset (peers m) \<and>
           (n = 0 \<longrightarrow> tr = [Print MgrNoPeersToUpdate]) \<and>
           (0 < n \<longrightarrow> sendto_calls tr =
              map (\<lambda>i. (SetNextPeer (snd (sp ! ((i + 1) mod n))), Some (snd (sp ! i))))
                [0..<n]) \<and>
           (n = 1 \<longrightarrow> sendto_calls tr = [(SetNextPeer (snd (sp ! 0)), Some (snd (sp ! 0)))]))"
proof -
  define sp where "sp = sort_key fst (peers m)"
  define n where "n = length sp"
  have calls: "sendto_calls (update_ring_loop (sock m) sp (enumerate 0 sp)) =
      map (\<lambda>i. (SetNextPeer (snd (sp ! ((i + 1) mod n))), Some (snd (sp ! i)))) [0..<n]"
    unfolding sendto_calls_update_ring_loop n_def
    by (rule nth_equalityI) (simp_all add: nth_enumerate_eq split_beta)
  have one: "n = 1 \<Longrightarrow>
      map (\<lambda>i. (SetNextPeer (snd (sp ! ((i + 1) mod n))), Some (snd (sp ! i)))) [0..<n]
      = [(SetNextPeer (snd (sp ! 0)), Some (snd (sp ! 0)))]"
    by simp
  have srt: "sorted (map fst sp)" and ms: "mset sp = mset (peers m)"
    by (simp_all add: sp_def)
  have ur: "update_ring m =
      (Returned, m, if n = 0 then [Print MgrNoPeersToUpdate]
                    else update_ring_loop (sock m) sp (enumerate 0 sp))"
    using assms by (simp add: update_ring_def Let_def sp_def n_def sort_key_empty_iff)
  show ?thesis
    unfolding ur Let_def sp_def [symmetric] n_def [symmetric]
    using calls one srt ms by simp
qed

theorem update_ring_successors_witness:
  "\<not> lock abc_manager \<and>
   (case update_ring abc_manager of (st, m', tr) \<Rightarrow>
      st = Returned \<and> m' = abc_manager \<and>
      sendto_calls tr =
        [(SetNextPeer (''B'', 9001), Some (''A'', 9000)),
         (SetNextPeer (''C'', 9002), Some (''B'', 9001)),
         (SetNextPeer (''A'', 9000), Some (''C'', 9002))])"
  using update_ring_successors [of abc_manager]
  by (simp add: abc_manager_def Let_def split: prod.splits)

section \<open>Removal\<close>

lemma remove_peer_absent:
  "\<not> lock m \<Longrightarrow> map_of (peers m) i = None \<Longrightarrow>
   remove_peer m i addr = (Returned, m, [Print (MgrUnknownPeer i)])"
  by (simp add: remove_peer_def)

text \<open>
  A departure of a registered peer: the record is deleted and the removal reported,
  then \<open>update_ring\<close> is called while \<open>remove_peer\<close> still holds the lock. A
  \<open>threading.Lock\<close> is not reentrant, so that call waits for ever: nothing is sent and
  the lock stays held.
\<close>

lemma remove_peer_present:
  "\<not> lock m \<Longrightarrow> map_of (peers m) i \<noteq> None \<Longrightarrow>
   remove_peer m i addr =
     (Blocked, m\<lparr>lock := True, peers := AList.delete i (peers m)\<rparr>, [Print (MgrPeerRemoved i)])"
  by (simp add: remove_peer_def update_ring_def)

lemma remove_peer_locked: "lock m \<Longrightarrow> remove_peer m i addr = (Blocked, m, [])"
  by (simp add: remove_peer_def)

lemma remove_peer_peers:
  "peers (fst (snd (remove_peer m i addr))) = (if lock m then peers m else AList.delete i (peers m))"
proof (cases "lock m")
  case True
  then show ?thesis by (simp add: remove_peer_locked)
next
  case False
  show ?thesis
  proof (cases "map_of (peers m) i")
    case None
    then have "i \<notin> fst ` set (peers m)" by (simp add: map_of_eq_None_iff)
    then have "AList.delete i (peers m) = peers m" by (simp add: delete_id)
    with False None show ?thesis by (simp add: remove_peer_absent)
  next
    case (Some a)
    with False show ?thesis by (simp add: remove_peer_present)
  qed
qed

text \<open>
  Claim C7. Removing an identity that is not registered, with the lock free, returns
  with the manager unchanged and a single report naming the unknown peer (no exception,
  nothing sent). One removal leaves the registry without the identity, and a second
  removal of the same identity, called on the state the first one left or arriving as
  the next \<open>leave\<close> datagram of the \<open>run\<close> loop, leaves the same registry as the
  first alone.
\<close>

theorem remove_peer_idempotent:
  "(\<not> lock m \<and> map_of (peers m) i = None \<longrightarrow>
      remove_peer m i a = (Returned, m, [Print (MgrUnknownPeer i)])) \<and>
   (\<not> lock m \<longrightarrow> peers (fst (snd (remove_peer m i a))) = AList.delete i (peers m)) \<and>
   peers (fst (snd (remove_peer (fst (snd (remove_peer m i a))) i b))) =
     peers (fst (snd (remove_peer m i a))) \<and>
   peers (fst (snd (Manager_run m [(Leave i, a), (Leave i, b)]))) =
     peers (fst (snd (Manager_run m [(Leave i, a)])))"
proof -
  consider (locked) "lock m"
    | (absent) "\<not> lock m" "map_of (peers m) i = None"
    | (present) "\<not> lock m" "map_of (peers m) i \<noteq> None"
    by blast
  then have both: "peers (fst (snd (remove_peer (fst (snd (remove_peer m i a))) i b))) =
       peers (fst (snd (remove_peer m i a))) \<and>
     peers (fst (snd (Manager_run m [(Leave i, a), (Leave i, b)]))) =
       peers (fst (snd (Manager_run m [(Leave i, a)])))"
  proof cases
    case locked
    then show ?thesis by (simp add: remove_peer_locked)
  next
    case absent
    then show ?thesis by (simp add: remove_peer_absent)
  next
    case present
    then show ?thesis by (simp add: remove_peer_present remove_peer_locked)
  qed
  show ?thesis
    using both by (simp add: remove_peer_absent remove_peer_peers)
qed

theorem remove_peer_idempotent_witness:
  "\<not> lock abc_manager \<and> map_of (peers abc_manager) 7 = None \<and>
   remove_peer abc_manager 7 (''D'', 9007) = (Returned, abc_manager, [Print (MgrUnknownPeer 7)]) \<and>
   peers (fst (snd (remove_peer abc_manager 1 (''B'', 9001)))) =
     [(2, (''C'', 9002)), (0, (''A'', 9000))] \<and>
   peers (fst (snd (Manager_run abc_manager [(Leave 1, (''B'', 9001)), (Leave 1, (''B'', 9001))]))) =
     [(2, (''C'', 9002)), (0, (''A'', 9000))]"
proof -
  have free: "\<not> lock abc_manager" and absent: "map_of (peers abc_manager) 7 = None"
    by (simp_all add: abc_manager_def)
  have del: "AList.delete 1 (peers abc_manager) = [(2, (''C'', 9002)), (0, (''A'', 9000))]"
    by (simp add: abc_manager_def AList.delete_eq)
  note unknown = remove_peer_idempotent [of abc_manager 7 "(''D'', 9007)" "(''D'', 9007)"]
  note known = remove_peer_idempotent [of abc_manager 1 "(''B'', 9001)" "(''B'', 9001)"]
  have once: "peers (fst (snd (remove_peer abc_manager 1 (''B'', 9001)))) =
      [(2, (''C'', 9002)), (0, (''A'', 9000))]"
    using known free del by simp
  have run1: "Manager_run abc_manager [(Leave 1, (''B'', 9001))] =
      remove_peer abc_manager 1 (''B'', 9001)"
    by (simp add: abc_manager_def remove_peer_def update_ring_def)
  have twice: "peers (fst (snd (Manager_run abc_manager
      [(Leave 1, (''B'', 9001)), (Leave 1, (''B'', 9001))]))) = [(2, (''C'', 9002)), (0, (''A'', 9000))]"
    using known once run1 by simp
  show ?thesis
    using unknown free absent once twice by blast
qed


section \<open>Assignment\<close>

text \<open>
  Claim C6. With an empty registry, whatever rows are loaded, \<open>distribute_events\<close>
  makes no \<open>sendto\<close> call and leaves the manager unchanged; when it gets the lock it
  returns after the single report that no peer is registered.
\<close>

theorem distribute_events_empty_registry:
  assumes "peers m = []"
  shows "case distribute_events py m of (st, m', tr) \<Rightarrow>
       m' = m \<and> sendto_calls tr = [] \<and>
       (\<not> lock m \<longrightarrow> st = Returned \<and> tr = [Print MgrNoPeersRegistered])"
  using assms by (simp add: distribute_events_def)

theorem distribute_events_empty_registry_witness:
  "peers empty_manager = [] \<and> events empty_manager \<noteq> [] \<and>
   distribute_events toy_builtins empty_manager =
     (Returned, empty_manager, [Print MgrNoPeersRegistered])"
  using distribute_events_empty_registry [of empty_manager toy_builtins]
  by (simp add: empty_manager_def Manager_init_def split: prod.splits)

lemma map_insort_key: "map f (insort_key f x xs) = insort (f x) (map f xs)"
  by (induction xs) simp_all

lemma sort_map_fst: "sort (map f xs) = map f (sort_key f xs)"
  by (induction xs) (simp_all add: map_insort_key)

lemma sorted_lookup:
  assumes "distinct (map fst al)" and "j < length al"
  shows "map_of al (sort (map fst al) ! j) = Some (snd (sort_key fst al ! j))"
proof -
  have "sort_key fst al ! j \<in> set al"
    using assms(2) by (metis length_sort nth_mem set_sort)
  then have "(fst (sort_key fst al ! j), snd (sort_key fst al ! j)) \<in> set al"
    by simp
  with assms(1) have "map_of al (fst (sort_key fst al ! j)) = Some (snd (sort_key fst al ! j))"
    by (rule map_of_is_SomeI)
  then show ?thesis
    using assms(2) by (simp add: sort_map_fst)
qed

lemma owner_index_bound: "xs \<noteq> [] \<Longrightarrow> nat (h mod int (length xs)) < length xs"
  by (simp add: nat_less_iff)

lemma distribute_loop_calls:
  assumes "distinct (map fst (peers m))" and "peers m \<noteq> []"
  shows "fst (distribute_loop py m (sort (map fst (peers m))) es) = Returned \<and>
     sendto_calls (snd (distribute_loop py m (sort (map fst (peers m))) es)) =
       map (\<lambda>e. (Store (event_key py e) e,
                 Some (snd (sort_key fst (peers m)
                            ! nat (py_hash py (event_key py e) mod int (length (peers m))))))) es"
proof (induction es)
  case Nil
  show ?case by simp
next
  case (Cons e es)
  let ?j = "nat (py_hash py (event_key py e) mod int (length (peers m)))"
  have "?j < length (peers m)"
    using assms(2) by (rule owner_index_bound)
  then have look: "map_of (peers m) (sort (map fst (peers m)) ! ?j) =
      Some (snd (sort_key fst (peers m) ! ?j))"
    using assms(1) by (rule sorted_lookup [rotated])
  obtain st tr where rest: "distribute_loop py m (sort (map fst (peers m))) es = (st, tr)"
    by (cases "distribute_loop py m (sort (map fst (peers m))) es")
  with Cons.IH have st: "st = Returned" and tr: "sendto_calls tr =
       map (\<lambda>e. (Store (event_key py e) e,
                 Some (snd (sort_key fst (peers m)
                            ! nat (py_hash py (event_key py e) mod int (length (peers m))))))) es"
    by simp_all
  show ?case
    using look rest st tr
    by (simp add: Let_def sendto_calls_append split: option.splits)
qed

text \<open>
  Claim C2. With the lock free and a non-empty registry (a dictionary: no identity
  twice), \<open>distribute_events\<close> returns with the manager unchanged, and its \<open>sendto\<close>
  calls are, row by row in the order of the loaded rows, one \<open>store\<close> message carrying
  the row's key and the row, addressed to the peer at position \<open>hash(key) mod n\<close> of the
  registry sorted by ascending identity, \<open>n\<close> being the number of registered peers. The
  key is the \<open>EVENT_ID\<close> field when the row has one, and otherwise the text of the hash
  of the row's text. So the owner depends on the registry and the key alone: another
  run, on any state with the same registry and rows of the same keys, addresses the
  same peers.
\<close>

theorem distribute_events_owner:
  assumes "\<not> lock m" and "peers m \<noteq> []" and "distinct (map fst (peers m))"
  shows "case distribute_events py m of (st, m', tr) \<Rightarrow>
       st = Returned \<and> m' = m \<and>
       (let sp = sort_key fst (peers m); n = length sp
        in sorted (map fst sp) \<and> mset sp = mset (peers m) \<and>
           sendto_calls tr =
             map (\<lambda>e. (Store (event_key py e) e,
                       Some (snd (sp ! nat (py_hash py (event_key py e) mod int n)))))
               (events m) \<and>
           (\<forall>m2. \<not> lock m2 \<and> peers m2 = peers m \<and>
                 map (event_key py) (events m2) = map (event_key py) (events m) \<longrightarrow>
                 map snd (sendto_calls (snd (snd (distribute_events py m2)))) =
                 map snd (sendto_calls tr))) \<and>
       (\<forall>e k. e ''EVENT_ID'' = Some k \<longrightarrow> event_key py e = k) \<and>
       (\<forall>e. e ''EVENT_ID'' = None \<longrightarrow>
            event_key py e = str_int py (py_hash py (str_event py e)))"
proof -
  let ?owner = "\<lambda>k. Some (snd (sort_key fst (peers m) ! nat (py_hash py k mod int (length (peers m)))))"
  have run: "\<And>m2. \<not> lock m2 \<Longrightarrow> peers m2 = peers m \<Longrightarrow>
      fst (distribute_events py m2) = Returned \<and> fst (snd (distribute_events py m2)) = m2 \<and>
      sendto_calls (snd (snd (distribute_events py m2))) =
        map (\<lambda>e. (Store (event_key py e) e, ?owner (event_key py e))) (events m2)"
  proof -
    fix m2 :: manager
    assume free: "\<not> lock m2" and same: "peers m2 = peers m"
    from assms(2,3) same have d: "distinct (map fst (peers m2))" and ne: "peers m2 \<noteq> []"
      by simp_all
    obtain st tr where l: "distribute_loop py m2 (sort (map fst (peers m2))) (events m2) = (st, tr)"
      by (cases "distribute_loop py m2 (sort (map fst (peers m2))) (events m2)")
    from distribute_loop_calls [OF d ne, of py "events m2"] l same
    have st: "st = Returned" and tr: "sendto_calls tr =
        map (\<lambda>e. (Store (event_key py e) e, ?owner (event_key py e))) (events m2)"
      by simp_all
    show "fst (distribute_events py m2) = Returned \<and> fst (snd (distribute_events py m2)) = m2 \<and>
      sendto_calls (snd (snd (distribute_events py m2))) =
        map (\<lambda>e. (Store (event_key py e) e, ?owner (event_key py e))) (events m2)"
      using free ne l st tr
      by (simp add: distribute_events_def Let_def sendto_calls_append)
  qed
  have owners: "\<And>m2. \<not> lock m2 \<Longrightarrow> peers m2 = peers m \<Longrightarrow>
      map snd (sendto_calls (snd (snd (distribute_events py m2)))) =
        map ?owner (map (event_key py) (events m2))"
    using run by (simp add: comp_def)
  have keys: "(\<forall>e k. e ''EVENT_ID'' = Some k \<longrightarrow> event_key py e = k) \<and>
       (\<forall>e. e ''EVENT_ID'' = None \<longrightarrow>
            event_key py e = str_int py (py_hash py (str_event py e)))"
    by (simp add: event_key_def)
  have same_owner: "\<forall>m2. \<not> lock m2 \<and> peers m2 = peers m \<and>
                 map (event_key py) (events m2) = map (event_key py) (events m) \<longrightarrow>
                 map snd (sendto_calls (snd (snd (distribute_events py m2)))) =
                 map snd (sendto_calls (snd (snd (distribute_events py m))))"
    using owners [OF assms(1) refl] owners by metis
  obtain st m' tr where r: "distribute_events py m = (st, m', tr)"
    by (cases "distribute_events py m")
  from run [OF assms(1) refl] r have "st = Returned" "m' = m"
    and "sendto_calls tr = map (\<lambda>e. (Store (event_key py e) e, ?owner (event_key py e))) (events m)"
    by simp_all
  moreover from same_owner r have "\<forall>m2. \<not> lock m2 \<and> peers m2 = peers m \<and>
                 map (event_key py) (events m2) = map (event_key py) (events m) \<longrightarrow>
                 map snd (sendto_calls (snd (snd (distribute_events py m2)))) =
                 map snd (sendto_calls tr)"
    by simp
  ultimately show ?thesis
    using keys r by (simp add: Let_def)
qed

theorem distribute_events_owner_witness:
  "\<not> lock abc_loaded \<and> peers abc_loaded \<noteq> [] \<and> distinct (map fst (peers abc_loaded)) \<and>
   sendto_calls (snd (snd (distribute_events toy_builtins abc_loaded))) =
     [(Store ''EVT1'' [''EVENT_ID'' \<mapsto> ''EVT1''], Some (''B'', 9001)),
      (Store ''70'' [''YEARMONTH'' \<mapsto> ''202401''], Some (''C'', 9002))]"
proof -
  have h: "\<not> lock abc_loaded" "peers abc_loaded \<noteq> []" "distinct (map fst (peers abc_loaded))"
    by (simp_all add: abc_loaded_def abc_manager_def)
  have sp: "sort_key fst (peers abc_loaded) = [(0, (''A'', 9000)), (1, (''B'', 9001)), (2, (''C'', 9002))]"
    by (simp add: abc_loaded_def abc_manager_def)
  have ev: "events abc_loaded = [[''EVENT_ID'' \<mapsto> ''EVT1''], [''YEARMONTH'' \<mapsto> ''202401'']]"
    by (simp add: abc_loaded_def)
  have k: "event_key toy_builtins [''EVENT_ID'' \<mapsto> ''EVT1''] = ''EVT1''"
    "event_key toy_builtins [''YEARMONTH'' \<mapsto> ''202401''] = ''70''"
    by (simp_all add: event_key_def toy_builtins_def)
  have hs: "py_hash toy_builtins ''EVT1'' = 4" "py_hash toy_builtins ''70'' = 2"
    by (simp_all add: toy_builtins_def)
  show ?thesis
    using distribute_events_owner [OF h, of toy_builtins] h
    by (simp add: Let_def sp ev k hs split: prod.splits)
qed

section \<open>Identities\<close>

lemma issued_append: "issued (xs @ ys) = issued xs @ issued ys"
  by (induction xs rule: issued.induct) simp_all

lemma issued_update_ring_loop: "issued (update_ring_loop s sp es) = []"
  by (induction es) (auto simp: Let_def split: option.splits)

lemma issued_update_ring: "issued (snd (snd (update_ring m))) = []"
  by (simp add: update_ring_def Let_def issued_update_ring_loop)

lemma next_peer_id_update_ring: "next_peer_id (fst (snd (update_ring m))) = next_peer_id m"
  by (simp add: update_ring_def Let_def)

lemma remove_peer_counter:
  "remove_peer m i addr = (st, m', tr) \<Longrightarrow> next_peer_id m' = next_peer_id m \<and> issued tr = []"
  using issued_update_ring [of "m\<lparr>lock := True, peers := AList.delete i (peers m)\<rparr>"]
    next_peer_id_update_ring [of "m\<lparr>lock := True, peers := AList.delete i (peers m)\<rparr>"]
  by (auto simp: remove_peer_def Let_def split: if_splits prod.splits status.splits)

lemma register_peer_counter:
  "register_peer m pp addr = (st, m', tr) \<Longrightarrow>
   (issued tr = [] \<and> next_peer_id m' = next_peer_id m) \<or>
   (issued tr = [next_peer_id m] \<and> next_peer_id m' = next_peer_id m + 1)"
  by (auto simp: register_peer_def Let_def split: if_splits)

lemma handle_message_counter:
  "Manager_handle_message m msg addr = (st, m', tr) \<Longrightarrow>
   (issued tr = [] \<and> next_peer_id m' = next_peer_id m) \<or>
   (issued tr = [next_peer_id m] \<and> next_peer_id m' = next_peer_id m + 1)"
  by (cases msg) (auto dest: register_peer_counter remove_peer_counter)

lemma upto_counter:
  "map (\<lambda>k. c + int k) [0..<Suc n] = c # map (\<lambda>k. (c + 1) + int k) [0..<n]"
  by (simp add: upt_conv_Cons map_Suc_upt [symmetric] del: upt_Suc)

lemma run_counter:
  "Manager_run m msgs = (st, m', tr) \<Longrightarrow>
   issued tr = map (\<lambda>k. next_peer_id m + int k) [0..<length (issued tr)] \<and>
   next_peer_id m' = next_peer_id m + int (length (issued tr))"
proof (induction msgs arbitrary: m st m' tr)
  case Nil
  then show ?case by simp
next
  case (Cons x msgs)
  obtain msg addr where x: "x = (msg, addr)" by (cases x)
  show ?case
  proof (cases "running m")
    case False
    with Cons.prems x show ?thesis by simp
  next
    case True
    obtain st1 m1 tr1 where h: "Manager_handle_message m msg addr = (st1, m1, tr1)"
      by (cases "Manager_handle_message m msg addr")
    note c1 = handle_message_counter [OF h]
    show ?thesis
    proof (cases st1)
      case Blocked
      with Cons.prems x True h have "tr = tr1" "m' = m1" by simp_all
      with c1 show ?thesis by auto
    next
      case Returned
      obtain st2 m2 tr2 where r: "Manager_run m1 msgs = (st2, m2, tr2)"
        by (cases "Manager_run m1 msgs")
      with Cons.prems x True h Returned have eq: "tr = tr1 @ tr2" "m' = m2" by simp_all
      note c2 = Cons.IH [OF r]
      from c1 c2 show ?thesis
        unfolding eq issued_append
        by (elim disjE conjE) (simp_all add: upto_counter del: upt_Suc)
    next
      case (Raised e)
      obtain st2 m2 tr2 where r: "Manager_run m1 msgs = (st2, m2, tr2)"
        by (cases "Manager_run m1 msgs")
      with Cons.prems x True h Raised have eq: "tr = tr1 @ Print (MgrRunLoopError e) # tr2" "m' = m2"
        by simp_all
      note c2 = Cons.IH [OF r]
      from c1 c2 show ?thesis
        unfolding eq issued_append
        by (elim disjE conjE) (simp_all add: upto_counter del: upt_Suc)
    qed
  qed
qed

text \<open>
  Claim C4. Let the \<open>run\<close> loop handle any sequence of datagrams (registrations,
  departures, anything else) from the initial state. The identities it hands out in its
  \<open>set_id\<close> replies are \<open>0, 1, 2, \<dots>\<close> in this order: they start at 0, are strictly
  increasing, and no identity is handed out twice, whatever was removed in between;
  the counter ends at the number of identities handed out.
\<close>

theorem issued_identities:
  "case Manager_run (Manager_init s h p) msgs of (st, m', tr) \<Rightarrow>
     issued tr = map int [0..<length (issued tr)] \<and>
     distinct (issued tr) \<and> sorted_wrt (<) (issued tr) \<and>
     next_peer_id m' = int (length (issued tr))"
proof -
  obtain st m' tr where r: "Manager_run (Manager_init s h p) msgs = (st, m', tr)"
    by (cases "Manager_run (Manager_init s h p) msgs")
  from run_counter [OF r]
  have ids: "issued tr = map int [0..<length (issued tr)]"
    and cnt: "next_peer_id m' = int (length (issued tr))"
    by (simp_all add: Manager_init_def)
  have "distinct (map int [0..<length (issued tr)])"
    by (simp add: distinct_map)
  moreover have "sorted_wrt (<) (map int [0..<length (issued tr)])"
    by (simp add: sorted_wrt_map sorted_wrt_upt)
  ultimately show ?thesis
    using ids cnt r by simp
qed


theorem issued_identities_witness:
  "issued (snd (snd (Manager_run (Manager_init (\<lambda>a. False) ''127.0.0.1'' 5000)
      [(Register 9000, (''127.0.0.1'', 9000)), (Other ''ping'', (''127.0.0.1'', 9000)),
       (Register 9001, (''127.0.0.1'', 9001)), (Leave 7, (''127.0.0.1'', 9001)),
       (Register 9002, (''127.0.0.1'', 9002))]))) = [0, 1, 2]"
proof -
  let ?r = "Manager_run (Manager_init (\<lambda>a. False) ''127.0.0.1'' 5000)
      [(Register 9000, (''127.0.0.1'', 9000)), (Other ''ping'', (''127.0.0.1'', 9000)),
       (Register 9001, (''127.0.0.1'', 9001)), (Leave 7, (''127.0.0.1'', 9001)),
       (Register 9002, (''127.0.0.1'', 9002))]"
  have len: "length (issued (snd (snd ?r))) = 3"
    by (simp add: Manager_init_def register_peer_def remove_peer_def Let_def
        status_of_def sendto_def)
  from issued_identities [of "\<lambda>a. False" "''127.0.0.1''" 5000
      "[(Register 9000, (''127.0.0.1'', 9000)), (Other ''ping'', (''127.0.0.1'', 9000)),
       (Register 9001, (''127.0.0.1'', 9001)), (Leave 7, (''127.0.0.1'', 9001)),
       (Register 9002, (''127.0.0.1'', 9002))]"]
  have "issued (snd (snd ?r)) = map int [0..<length (issued (snd (snd ?r)))]"
    by (simp add: split_beta)
  moreover have "map int [0..<3] = [0, 1, 2]"
    by code_simp
  ultimately show ?thesis
    by (simp only: len)
qed

section \<open>Membership changes and the ring\<close>

lemma register_peer_free:
  "\<not> lock m \<Longrightarrow>
   register_peer m pp addr =
     (status_of (sendto (sock m) (Some addr)),
      m\<lparr>next_peer_id := next_peer_id m + 1,
        peers := AList.update (next_peer_id m) (fst addr, pp) (peers m)\<rparr>,
      [Print (MgrRegistered (next_peer_id m) (fst addr) pp),
       Sendto (SetId (next_peer_id m)) (Some addr)])"
  by (simp add: register_peer_def Let_def)

text \<open>
  A registration on the three-peer registry: the peer is added, and the only datagram
  is the \<open>set_id\<close> reply; no peer is sent a successor update.
\<close>

theorem register_sends_no_successor_update:
  "Manager_handle_message abc_manager (Register 9003) (''127.0.0.1'', 9003) =
     (Returned,
      abc_manager\<lparr>next_peer_id := 4,
                  peers := [(2, (''C'', 9002)), (0, (''A'', 9000)), (1, (''B'', 9001)),
                            (3, (''127.0.0.1'', 9003))]\<rparr>,
      [Print (MgrRegistered 3 ''127.0.0.1'' 9003),
       Sendto (SetId 3) (Some (''127.0.0.1'', 9003))])"
  by (simp add: abc_manager_def register_peer_def Let_def status_of_def sendto_def)

text \<open>
  Claim C5, as amended. A registration that gets the lock inserts the new record under
  the next identity and makes exactly one \<open>sendto\<close> call, the \<open>set_id\<close> reply to the
  registering peer, with one report: it does not recompute the ring and sends no
  successor update.
\<close>

theorem register_peer_replies_only:
  assumes "\<not> lock m"
  shows "case register_peer m pp addr of (st, m', tr) \<Rightarrow>
       peers m' = AList.update (next_peer_id m) (fst addr, pp) (peers m) \<and>
       sendto_calls tr = [(SetId (next_peer_id m), Some addr)] \<and>
       reports tr = [MgrRegistered (next_peer_id m) (fst addr) pp]"
  using assms by (simp add: register_peer_free)

theorem register_peer_replies_only_witness:
  "\<not> lock abc_manager \<and>
   sendto_calls (snd (snd (register_peer abc_manager 9003 (''127.0.0.1'', 9003)))) =
     [(SetId 3, Some (''127.0.0.1'', 9003))]"
  using register_peer_replies_only [where m = abc_manager and pp = 9003 and addr = "(''127.0.0.1'', 9003)"]
  by (simp add: abc_manager_def split_beta)

section \<open>The peer's store\<close>

text \<open>
  Claim C8. For every peer state, key \<open>k\<close> and payload \<open>v\<close>, \<open>handle_store\<close> leaves
  the peer with \<open>k\<close> bound to \<open>v\<close> in its store (whatever \<open>k\<close> was bound to before),
  every other key as it was and no other field changed; after the insertion and its
  report it makes one \<open>sendto\<close> call, the \<open>store_ack\<close> naming the peer's own identity
  and \<open>k\<close>, addressed to the manager, and it returns when the socket takes the
  datagram.
\<close>

theorem handle_store_inserts_and_acks:
  "case handle_store p k v of (st, p', tr) \<Rightarrow>
     data_store p' = (data_store p)(k \<mapsto> v) \<and>
     data_store p' k = Some v \<and>
     (\<forall>k'. k' \<noteq> k \<longrightarrow> data_store p' k' = data_store p k') \<and>
     p' = p\<lparr>data_store := (data_store p)(k \<mapsto> v)\<rparr> \<and>
     tr = [Print (PeerStored (peer_id p) k),
           Sendto (StoreAck (peer_id p) k) (Some (manager_address p))] \<and>
     (\<not> peer_sock p (manager_address p) \<longrightarrow> st = Returned)"
  by (simp add: handle_store_def store_event_def Let_def status_of_def sendto_def)

theorem handle_store_inserts_and_acks_witness:
  "handle_store lone_peer ''EVT1'' [''X'' \<mapsto> ''Y''] =
     (Returned, lone_peer\<lparr>data_store := [''EVT1'' \<mapsto> [''X'' \<mapsto> ''Y'']]\<rparr>,
      [Print (PeerStored (Some 0) ''EVT1''),
       Sendto (StoreAck (Some 0) ''EVT1'') (Some (''127.0.0.1'', 5000))])"
  using handle_store_inserts_and_acks [of lone_peer "''EVT1''" "[''X'' \<mapsto> ''Y'']"]
  by (simp add: lone_peer_def Peer_init_def split_beta prod_eq_iff)

section \<open>A query with no successor\<close>

text \<open>
  Claim C10. A peer with no successor that holds the key: \<open>query_event\<close> reports that
  the next peer is not set, runs the \<open>find_event\<close> handler with the sender \<open>None\<close>, and
  is left by the \<open>TypeError\<close> of the \<open>sendto\<close> to \<open>None\<close>. No datagram leaves the
  peer and the payload is never reported to the operator.
\<close>

theorem query_event_local_raises:
  assumes "next_peer p = None" and "data_store p k = Some v"
  shows "query_event p k =
       (Raised TypeError, p, [Print PeerNextNotSet, Sendto (FoundEvent k v) None]) \<and>
     datagrams (peer_sock p) (snd (snd (query_event p k))) = [] \<and>
     reports (snd (snd (query_event p k))) = [PeerNextNotSet]"
  using assms
  by (simp add: query_event_def handle_find_event_def status_of_def sendto_def)

theorem query_event_local_raises_witness:
  "next_peer lone_peer = None \<and>
   data_store lone_peer ''EVT1'' = Some [''EVENT_ID'' \<mapsto> ''EVT1''] \<and>
   query_event lone_peer ''EVT1'' =
     (Raised TypeError, lone_peer,
      [Print PeerNextNotSet, Sendto (FoundEvent ''EVT1'' [''EVENT_ID'' \<mapsto> ''EVT1'']) None])"
proof -
  have h: "next_peer lone_peer = None"
    "data_store lone_peer ''EVT1'' = Some [''EVENT_ID'' \<mapsto> ''EVT1'']"
    by (simp_all add: lone_peer_def Peer_init_def)
  from query_event_local_raises [OF h] h show ?thesis by simp
qed

section \<open>Lookups around the ring\<close>

lemma bound_address_eq [simp]: "bound_address p = bound_address q \<longleftrightarrow> p_port p = p_port q"
  by (simp add: bound_address_def)

lemma deliver_at:
  assumes "distinct (map p_port ps)" and "j < length ps" and "peer_running (ps ! j)"
  shows "deliver (msg, src, bound_address (ps ! j)) ps =
     (ps[j := fst (snd (listen_step (ps ! j) msg src))],
      emitted (ps ! j) (snd (snd (listen_step (ps ! j) msg src))))"
  using assms
proof (induction ps arbitrary: j)
  case Nil
  then show ?case by simp
next
  case (Cons p ps)
  show ?case
  proof (cases j)
    case 0
    with Cons.prems show ?thesis by (simp add: split_beta)
  next
    case (Suc j')
    with Cons.prems have "p_port (ps ! j') \<in> set (map p_port ps)" by simp
    with Cons.prems have ne: "p_port p \<noteq> p_port (ps ! j')" by auto
    from Cons.prems Suc have "deliver (msg, src, bound_address (ps ! j')) ps =
     (ps[j' := fst (snd (listen_step (ps ! j') msg src))],
      emitted (ps ! j') (snd (snd (listen_step (ps ! j') msg src))))"
      by (intro Cons.IH) simp_all
    with ne Suc show ?thesis by simp
  qed
qed

lemma listen_find_forward:
  assumes "data_store p k = None" and "next_peer p = Some nxt" and "\<not> peer_sock p nxt"
  shows "listen_step p (FindEvent k) src =
     (Returned, p, [Print (PeerForwarding (peer_id p) k nxt), Sendto (FindEvent k) (Some nxt)])"
  using assms by (simp add: listen_step_def handle_find_event_def status_of_def sendto_def)

lemma listen_find_answer:
  assumes "data_store p k = Some v" and "\<not> peer_sock p src"
  shows "listen_step p (FindEvent k) src = (Returned, p, [Sendto (FoundEvent k v) (Some src)])"
  using assms by (simp add: listen_step_def handle_find_event_def status_of_def sendto_def)

lemma listen_found:
  "listen_step p (FoundEvent k v) src = (Returned, p, [Print (PeerFound (peer_id p) k v)])"
  by (simp add: listen_step_def handle_found_event_def)

lemma ring_next:
  assumes "ring ps" and "j < length ps"
  shows "next_peer (ps ! j) = Some (bound_address (ps ! (Suc j mod length ps)))"
proof -
  from assms(1) have "map next_peer ps ! j = map (\<lambda>q. Some (bound_address q)) (rotate1 ps) ! j"
    by (simp add: ring_def)
  with assms(2) show ?thesis by (simp add: nth_rotate1)
qed

lemma serving_nth:
  assumes "serving ps" and "j < length ps"
  shows "peer_running (ps ! j)" and "\<not> peer_sock (ps ! j) a"
  using assms unfolding serving_def list_all_length by blast+

lemma hop_forward:
  assumes "ring ps" and "serving ps" and "j < length ps" and "data_store (ps ! j) k = None"
  shows "net_step (ps, [(FindEvent k, src, bound_address (ps ! j))]) =
     (ps, [(FindEvent k, bound_address (ps ! j), bound_address (ps ! (Suc j mod length ps)))])"
proof -
  from assms(1) have d: "distinct (map p_port ps)" by (simp add: ring_def)
  note l = listen_find_forward [OF assms(4) ring_next [OF assms(1,3)] serving_nth(2) [OF assms(2,3)]]
  show ?thesis
    using serving_nth [OF assms(2,3)]
    by (simp add: net_step_def deliver_at [OF d assms(3) serving_nth(1) [OF assms(2,3)]] l emitted_def)
qed

lemma hop_answer:
  assumes "ring ps" and "serving ps" and "j < length ps" and "data_store (ps ! j) k = Some v"
  shows "net_step (ps, [(FindEvent k, src, bound_address (ps ! j))]) =
     (ps, [(FoundEvent k v, bound_address (ps ! j), src)])"
proof -
  from assms(1) have d: "distinct (map p_port ps)" by (simp add: ring_def)
  note l = listen_find_answer [OF assms(4) serving_nth(2) [OF assms(2,3)]]
  show ?thesis
    using serving_nth [OF assms(2,3)]
    by (simp add: net_step_def deliver_at [OF d assms(3) serving_nth(1) [OF assms(2,3)]] l emitted_def)
qed

lemma hop_found:
  assumes "ring ps" and "serving ps" and "j < length ps"
  shows "net_step (ps, [(FoundEvent k v, src, bound_address (ps ! j))]) = (ps, [])"
proof -
  from assms(1) have d: "distinct (map p_port ps)" by (simp add: ring_def)
  show ?thesis
    by (simp add: net_step_def deliver_at [OF d assms(3) serving_nth(1) [OF assms(2,3)]]
        listen_found emitted_def)
qed

lemma query_at_start:
  assumes "ring ps" and "serving ps" and "i < length ps"
  shows "query_at ps i k =
     (ps, [(FindEvent k, bound_address (ps ! i), bound_address (ps ! (Suc i mod length ps)))])"
  using ring_next [OF assms(1,3)] serving_nth(2) [OF assms(2,3)]
  by (simp add: query_at_def query_event_def emitted_def)

lemma forwards:
  assumes "ring ps" and "serving ps" and "i < length ps"
    and "\<forall>j. 0 < j \<and> j \<le> h \<longrightarrow> data_store (ps ! ((i + j) mod length ps)) k = None"
  shows "(net_step ^^ h) (query_at ps i k) =
     (ps, [(FindEvent k, bound_address (ps ! ((i + h) mod length ps)),
            bound_address (ps ! ((i + h + 1) mod length ps)))])"
  using assms(4)
proof (induction h)
  case 0
  show ?case using assms(3) by (simp add: query_at_start [OF assms(1-3)])
next
  case (Suc h)
  let ?n = "length ps"
  let ?j = "(i + h + 1) mod ?n"
  from assms(3) have "0 < ?n" by auto
  then have j: "?j < ?n" by simp
  from Suc.prems have "data_store (ps ! ((i + Suc h) mod ?n)) k = None" by blast
  then have absent: "data_store (ps ! ?j) k = None" by simp
  from Suc.prems have "(net_step ^^ h) (query_at ps i k) =
     (ps, [(FindEvent k, bound_address (ps ! ((i + h) mod ?n)), bound_address (ps ! ?j))])"
    by (intro Suc.IH) simp
  then have "(net_step ^^ Suc h) (query_at ps i k) =
      net_step (ps, [(FindEvent k, bound_address (ps ! ((i + h) mod ?n)), bound_address (ps ! ?j))])"
    by simp
  also have "\<dots> = (ps, [(FindEvent k, bound_address (ps ! ?j), bound_address (ps ! (Suc ?j mod ?n)))])"
    using assms(1,2) j absent by (rule hop_forward)
  finally show ?case by (simp add: mod_Suc_eq)
qed

lemma answer_after:
  assumes "ring ps" and "serving ps" and "i < length ps"
    and "data_store (ps ! ((i + Suc h) mod length ps)) k = Some v"
    and "\<forall>j. 0 < j \<and> j \<le> h \<longrightarrow> data_store (ps ! ((i + j) mod length ps)) k = None"
  shows "(net_step ^^ Suc h) (query_at ps i k) =
     (ps, [(FoundEvent k v, bound_address (ps ! ((i + Suc h) mod length ps)),
            bound_address (ps ! ((i + h) mod length ps)))])"
proof -
  let ?n = "length ps"
  from assms(3) have "0 < ?n" by auto
  then have j: "(i + Suc h) mod ?n < ?n" by simp
  have "(net_step ^^ Suc h) (query_at ps i k) = net_step ((net_step ^^ h) (query_at ps i k))"
    by simp
  also have "\<dots> = net_step (ps, [(FindEvent k, bound_address (ps ! ((i + h) mod ?n)),
        bound_address (ps ! ((i + Suc h) mod ?n)))])"
    using forwards [OF assms(1-3,5)] by simp
  also have "\<dots> = (ps, [(FoundEvent k v, bound_address (ps ! ((i + Suc h) mod ?n)),
        bound_address (ps ! ((i + h) mod ?n)))])"
    using assms(1,2) j assms(4) by (rule hop_answer)
  finally show ?thesis .
qed

lemma first_holder:
  fixes n :: nat
  assumes "i < n" and "x < n" and "P x"
  shows "\<exists>d. 0 < d \<and> d \<le> n \<and> P ((i + d) mod n) \<and> (\<forall>j. 0 < j \<and> j < d \<longrightarrow> \<not> P ((i + j) mod n))"
proof -
  define Q where "Q d \<longleftrightarrow> 0 < d \<and> P ((i + d) mod n)" for d
  define d0 where "d0 = (if i < x then x - i else n - i + x)"
  have "(i + d0) mod n = x"
  proof (cases "i < x")
    case True
    with assms(2) show ?thesis by (simp add: d0_def)
  next
    case False
    with assms(1) have "i + d0 = n + x" by (simp add: d0_def)
    with assms(2) show ?thesis by simp
  qed
  with assms have Q0: "Q d0" and le0: "d0 \<le> n"
    by (auto simp: Q_def d0_def)
  define d where "d = (LEAST d. Q d)"
  from Q0 have "Q d" unfolding d_def by (rule LeastI)
  moreover from Q0 have "d \<le> d0" unfolding d_def by (rule Least_le)
  moreover have "\<not> Q j" if "j < d" for j
    using that unfolding d_def by (rule not_less_Least)
  ultimately show ?thesis
    using le0 unfolding Q_def by (intro exI [of _ d]) auto
qed

lemma back_at_requester:
  fixes n :: nat
  assumes "i < n" and "0 < d" and "d \<le> n"
  shows "(i + d - 1) mod n = i \<longleftrightarrow> d = 1"
proof (cases "i + d - 1 < n")
  case True
  with assms show ?thesis by auto
next
  case False
  with assms have "(i + d - 1) mod n = i + d - 1 - n"
    by (simp add: le_mod_geq)
  with assms False show ?thesis by auto
qed

lemma abc_ring_ok: "ring abc_ring" "serving abc_ring" "length abc_ring = 3"
  by (simp_all add: ring_def serving_def abc_ring_def Peer_init_def bound_address_def)

lemma abc_ring_addresses:
  "bound_address (abc_ring ! 0) = (''127.0.0.1'', 9000)"
  "bound_address (abc_ring ! 1) = (''127.0.0.1'', 9001)"
  "bound_address (abc_ring ! Suc 0) = (''127.0.0.1'', 9001)"
  "bound_address (abc_ring ! 2) = (''127.0.0.1'', 9002)"
  "bound_address (abc_ring ! Suc (Suc 0)) = (''127.0.0.1'', 9002)"
  by (simp_all add: abc_ring_def Peer_init_def bound_address_def)

lemma abc_ring_stores:
  "data_store (abc_ring ! 0) k = None"
  "data_store (abc_ring ! 1) k = None"
  "data_store (abc_ring ! Suc 0) k = None"
  "data_store (abc_ring ! 2) ''EVT1'' = Some [''EVENT_ID'' \<mapsto> ''EVT1'']"
  "data_store (abc_ring ! 2) ''EVT9'' = None"
  by (simp_all add: abc_ring_def Peer_init_def)

text \<open>
  Claim C9. In a ring of serving peers none of which holds the key, a query from any
  position \<open>i\<close> never ends: after any number \<open>h\<close> of deliveries exactly one datagram
  is in flight, the unchanged \<open>find_event\<close> message, on its way from the peer at
  position \<open>i + h\<close> to its successor. No peer's state changes, no \<open>found_event\<close> is
  ever sent, and the message carries nothing that could stop it.
\<close>

theorem absent_key_circulates:
  assumes "ring ps" and "serving ps" and "i < length ps"
    and "\<forall>p \<in> set ps. data_store p k = None"
  shows "(net_step ^^ h) (query_at ps i k) =
     (ps, [(FindEvent k, bound_address (ps ! ((i + h) mod length ps)),
            bound_address (ps ! ((i + h + 1) mod length ps)))])"
proof -
  from assms(3) have "0 < length ps" by auto
  then have "\<And>j. (i + j) mod length ps < length ps" by simp
  with assms(4) have "\<forall>j. 0 < j \<and> j \<le> h \<longrightarrow> data_store (ps ! ((i + j) mod length ps)) k = None"
    by simp
  with assms(1-3) show ?thesis by (rule forwards)
qed

theorem absent_key_circulates_witness:
  "ring abc_ring \<and> serving abc_ring \<and> 0 < length abc_ring \<and>
   map (\<lambda>p. data_store p ''EVT9'') abc_ring = [None, None, None] \<and>
   (net_step ^^ 7) (query_at abc_ring 0 ''EVT9'') =
     (abc_ring, [(FindEvent ''EVT9'', (''127.0.0.1'', 9001), (''127.0.0.1'', 9002))])"
proof -
  have nowhere: "\<forall>p \<in> set abc_ring. data_store p ''EVT9'' = None"
    by (simp add: abc_ring_def Peer_init_def)
  have pos: "0 < length abc_ring"
    by (simp add: abc_ring_ok)
  from absent_key_circulates [OF abc_ring_ok(1,2) pos nowhere, of 7]
  have "(net_step ^^ 7) (query_at abc_ring 0 ''EVT9'') =
     (abc_ring, [(FindEvent ''EVT9'', bound_address (abc_ring ! 1), bound_address (abc_ring ! 2))])"
    by (simp add: abc_ring_ok)
  moreover have "map (\<lambda>p. data_store p ''EVT9'') abc_ring = [None, None, None]"
    by (simp add: abc_ring_def Peer_init_def)
  ultimately show ?thesis
    using pos abc_ring_ok by (simp add: abc_ring_addresses)
qed

text \<open>
  A query for \<open>EVT1\<close> from the first peer of the three-peer ring, the row being held
  by the third: the second peer forwards the request, the third answers to the second
  (port 9001), where the answer is consumed; nothing is addressed to the requester
  (port 9000).
\<close>

theorem lookup_answer_misses_requester:
  "query_at abc_ring 0 ''EVT1'' =
     (abc_ring, [(FindEvent ''EVT1'', (''127.0.0.1'', 9000), (''127.0.0.1'', 9001))]) \<and>
   (net_step ^^ 2) (query_at abc_ring 0 ''EVT1'') =
     (abc_ring, [(FoundEvent ''EVT1'' [''EVENT_ID'' \<mapsto> ''EVT1''],
                  (''127.0.0.1'', 9002), (''127.0.0.1'', 9001))]) \<and>
   (net_step ^^ 3) (query_at abc_ring 0 ''EVT1'') = (abc_ring, [])"
proof -
  have pos: "0 < length abc_ring" by (simp add: abc_ring_ok)
  have start: "query_at abc_ring 0 ''EVT1'' =
     (abc_ring, [(FindEvent ''EVT1'', (''127.0.0.1'', 9000), (''127.0.0.1'', 9001))])"
    using query_at_start [OF abc_ring_ok(1,2) pos, of "''EVT1''"]
    by (simp add: abc_ring_ok abc_ring_addresses)
  have one: "net_step (abc_ring, [(FindEvent ''EVT1'', (''127.0.0.1'', 9000), (''127.0.0.1'', 9001))]) =
     (abc_ring, [(FindEvent ''EVT1'', (''127.0.0.1'', 9001), (''127.0.0.1'', 9002))])"
    using hop_forward [OF abc_ring_ok(1,2), of 1 "''EVT1''" "(''127.0.0.1'', 9000)"]
    by (simp add: abc_ring_ok abc_ring_addresses abc_ring_stores)
  have two: "net_step (abc_ring, [(FindEvent ''EVT1'', (''127.0.0.1'', 9001), (''127.0.0.1'', 9002))]) =
     (abc_ring, [(FoundEvent ''EVT1'' [''EVENT_ID'' \<mapsto> ''EVT1''],
                  (''127.0.0.1'', 9002), (''127.0.0.1'', 9001))])"
    using hop_answer [OF abc_ring_ok(1,2), of 2 "''EVT1''" "[''EVENT_ID'' \<mapsto> ''EVT1'']" "(''127.0.0.1'', 9001)"]
    by (simp add: abc_ring_ok abc_ring_addresses abc_ring_stores)
  have three: "net_step (abc_ring, [(FoundEvent ''EVT1'' [''EVENT_ID'' \<mapsto> ''EVT1''],
                  (''127.0.0.1'', 9002), (''127.0.0.1'', 9001))]) = (abc_ring, [])"
    using hop_found [OF abc_ring_ok(1,2), of 1 "''EVT1''" "[''EVENT_ID'' \<mapsto> ''EVT1'']" "(''127.0.0.1'', 9002)"]
    by (simp add: abc_ring_ok abc_ring_addresses)
  show ?thesis
    by (simp add: eval_nat_numeral start one two three)
qed

text \<open>
  Claim C3, as amended. In a ring of \<open>n\<close> serving peers, a query from position \<open>i\<close> for
  a key that some peer holds is answered by the first holder met from the requester's
  successor on, at distance \<open>d\<close> with \<open>1 \<le> d \<le> n\<close>: the request is sent by the requester
  and forwarded unchanged by the \<open>d - 1 \<le> n - 1\<close> peers in between, and the holder sends
  one \<open>found_event\<close> with exactly its stored payload to the sender of the datagram it
  received, that is to its ring predecessor, where it is consumed. That peer is the
  requester exactly when \<open>d = 1\<close>, the holder being the requester's successor.
\<close>

theorem lookup_answer_to_previous_hop:
  assumes "ring ps" and "serving ps" and "i < length ps"
    and "x < length ps" and "data_store (ps ! x) k \<noteq> None"
  shows "\<exists>d v. 0 < d \<and> d \<le> length ps \<and>
     data_store (ps ! ((i + d) mod length ps)) k = Some v \<and>
     (\<forall>h<d. (net_step ^^ h) (query_at ps i k) =
        (ps, [(FindEvent k, bound_address (ps ! ((i + h) mod length ps)),
               bound_address (ps ! ((i + h + 1) mod length ps)))])) \<and>
     (net_step ^^ d) (query_at ps i k) =
        (ps, [(FoundEvent k v, bound_address (ps ! ((i + d) mod length ps)),
               bound_address (ps ! ((i + d - 1) mod length ps)))]) \<and>
     (net_step ^^ Suc d) (query_at ps i k) = (ps, []) \<and>
     (bound_address (ps ! ((i + d - 1) mod length ps)) = bound_address (ps ! i) \<longleftrightarrow> d = 1)"
proof -
  let ?n = "length ps"
  from assms(3) have pos: "0 < ?n" by auto
  from first_holder [of i ?n x "\<lambda>y. data_store (ps ! y) k \<noteq> None", OF assms(3-5)]
  obtain d where d: "0 < d" "d \<le> ?n"
    and holds: "data_store (ps ! ((i + d) mod ?n)) k \<noteq> None"
    and first: "\<forall>j. 0 < j \<and> j < d \<longrightarrow> data_store (ps ! ((i + j) mod ?n)) k = None"
    by auto
  from holds obtain v where v: "data_store (ps ! ((i + d) mod ?n)) k = Some v" by auto
  from d obtain h where h: "d = Suc h" by (cases d) auto
  have fw: "(net_step ^^ h') (query_at ps i k) =
        (ps, [(FindEvent k, bound_address (ps ! ((i + h') mod ?n)),
               bound_address (ps ! ((i + h' + 1) mod ?n)))])" if "h' < d" for h'
    using assms(1-3) by (rule forwards) (use first that in auto)
  have ans: "(net_step ^^ d) (query_at ps i k) =
        (ps, [(FoundEvent k v, bound_address (ps ! ((i + d) mod ?n)),
               bound_address (ps ! ((i + d - 1) mod ?n)))])"
    using answer_after [OF assms(1-3), of h k v] v first unfolding h by simp
  have "(net_step ^^ Suc d) (query_at ps i k) = net_step ((net_step ^^ d) (query_at ps i k))"
    by simp
  also have "\<dots> = (ps, [])"
    unfolding ans using assms(1,2) by (rule hop_found) (use pos in simp)
  finally have gone: "(net_step ^^ Suc d) (query_at ps i k) = (ps, [])" .
  from assms(1) have dist: "distinct (map p_port ps)" by (simp add: ring_def)
  have "(bound_address (ps ! ((i + d - 1) mod ?n)) = bound_address (ps ! i)) =
      ((i + d - 1) mod ?n = i)"
    using nth_eq_iff_index_eq [OF dist, of "(i + d - 1) mod ?n" i] assms(3) pos by simp
  also have "\<dots> = (d = 1)"
    using assms(3) d by (rule back_at_requester)
  finally have home: "(bound_address (ps ! ((i + d - 1) mod ?n)) = bound_address (ps ! i)) = (d = 1)" .
  show ?thesis
    using d v fw ans gone home by blast
qed

theorem lookup_answer_to_previous_hop_witness:
  "ring abc_ring \<and> serving abc_ring \<and> 0 < length abc_ring \<and> 2 < length abc_ring \<and>
   data_store (abc_ring ! 2) ''EVT1'' \<noteq> None \<and>
   (\<exists>d v. 0 < d \<and> d \<le> length abc_ring \<and>
     data_store (abc_ring ! ((0 + d) mod length abc_ring)) ''EVT1'' = Some v \<and>
     (net_step ^^ d) (query_at abc_ring 0 ''EVT1'') =
        (abc_ring, [(FoundEvent ''EVT1'' v, bound_address (abc_ring ! ((0 + d) mod length abc_ring)),
               bound_address (abc_ring ! ((0 + d - 1) mod length abc_ring)))]) \<and>
     (net_step ^^ Suc d) (query_at abc_ring 0 ''EVT1'') = (abc_ring, []))"
proof -
  have pos: "0 < length abc_ring" and x: "2 < length abc_ring"
    by (simp_all add: abc_ring_ok)
  have stored: "data_store (abc_ring ! 2) ''EVT1'' \<noteq> None"
    by (simp add: abc_ring_stores)
  from lookup_answer_to_previous_hop [OF abc_ring_ok(1,2) pos x stored]
  show ?thesis
    using abc_ring_ok(1,2) pos x stored by blast
qed

end
